theory Spec2Isabelle
  imports Main "HOL-Library.Multiset" "HOL-Library.Monad_Syntax"
begin

section \<open>EventBus.hpp: a typed publish/subscribe bus\<close>

text \<open>
  The header is embedded function by function. Pointers are addresses (\<open>0\<close> is
  \<open>nullptr\<close>), \<open>std::type_index\<close> values are tags, and the only way an operation can
  fail to return is a thread locking a \<open>std::mutex\<close> it already holds; that outcome is
  the value \<open>None\<close>, every other outcome is \<open>Some\<close>. The field names \<open>callbacks_\<close> and
  \<open>mutex_\<close> lose their trailing underscore, and \<open>BaseInfo::instance\<close> is \<open>inst\<close>
  (\<open>instance\<close> is reserved).
\<close>

subsection \<open>Mutex policies\<close>

text \<open>
  \<open>TypeMutex\<close> is \<open>std::mutex\<close> (the default of \<open>EventBus\<close>) or \<open>std::null_mutex\<close>, whose
  \<open>lock\<close> and \<open>unlock\<close> have empty bodies. A mutex is the flag "held". \<open>std::mutex\<close> is
  not recursive: locking it while the same thread holds it never returns.
\<close>

datatype MutexPolicy = std_mutex | null_mutex

fun lock :: "MutexPolicy \<Rightarrow> bool \<Rightarrow> bool option" where
  "lock null_mutex held = Some held"
| "lock std_mutex held = (if held then None else Some True)"

fun unlock :: "MutexPolicy \<Rightarrow> bool \<Rightarrow> bool" where
  "unlock null_mutex held = held"
| "unlock std_mutex held = False"

subsection \<open>ComparableCallback\<close>

type_synonym addr = nat

abbreviation (input) nullptr :: addr where
  "nullptr \<equiv> 0"

datatype type_index = typeid_void | typeid nat

datatype CallbackType = Function | Method

record BaseInfo =
  inst :: addr
  method_ptr :: addr
  instance_type :: type_index

text \<open>\<open>BaseInfo::operator==\<close>.\<close>

definition BaseInfo_eq :: "BaseInfo \<Rightarrow> BaseInfo \<Rightarrow> bool" where
  "BaseInfo_eq a other \<longleftrightarrow>
     inst a = inst other \<and> method_ptr a = method_ptr other \<and>
     instance_type a = instance_type other"

text \<open>
  A pointer to member function is wider than a \<open>void*\<close>: in the common ABI it is two
  words, the address of the function (or, for a virtual function, its slot in the
  vtable) and the adjustment of \<open>this\<close>. \<open>reinterpret_cast<void*&>(ptr)\<close> reads the
  first of its words.
\<close>

datatype member_pointer = member_pointer (first_word: addr) (more_words: "addr list")

definition reinterpret_cast_void :: "member_pointer \<Rightarrow> addr" where
  "reinterpret_cast_void ptr = first_word ptr"

text \<open>
  What the \<open>std::function\<close> member \<open>func\<close> stores: the function pointer itself, or the
  lambda that captured \<open>instance\<close> and \<open>ptr\<close>, the whole pointer to member function.
  An empty \<open>std::function\<close> is \<open>None\<close>.
\<close>

datatype target = raw_call addr | bound_call addr member_pointer

record ComparableCallback =
  callback_type :: CallbackType
  func_ptr :: addr
  method_info :: BaseInfo
  func :: "target option"

text \<open>
  The constructor from \<open>raw_func\<close>; a \<open>std::function\<close> built from a null function
  pointer is empty.
\<close>

definition ComparableCallback_raw :: "addr \<Rightarrow> ComparableCallback" where
  "ComparableCallback_raw ptr =
     \<lparr>callback_type = Function, func_ptr = ptr,
      method_info = \<lparr>inst = nullptr, method_ptr = nullptr, instance_type = typeid_void\<rparr>,
      func = (if ptr = nullptr then None else Some (raw_call ptr))\<rparr>"

text \<open>
  The two constructors from a pointer to member function and an object; \<open>C\<close> is the
  deduced class, whose \<open>typeid\<close> is stored. \<open>method_info\<close> keeps the first word of the
  pointer, the lambda keeps all of it. The const overload differs by a \<open>const_cast\<close>
  only.
\<close>

definition ComparableCallback_method ::
  "member_pointer \<Rightarrow> addr \<Rightarrow> nat \<Rightarrow> ComparableCallback" where
  "ComparableCallback_method ptr instance_obj C =
     \<lparr>callback_type = Method, func_ptr = nullptr,
      method_info = \<lparr>inst = instance_obj, method_ptr = reinterpret_cast_void ptr,
                     instance_type = typeid C\<rparr>,
      func = Some (bound_call instance_obj ptr)\<rparr>"

definition ComparableCallback_const_method ::
  "member_pointer \<Rightarrow> addr \<Rightarrow> nat \<Rightarrow> ComparableCallback" where
  "ComparableCallback_const_method ptr instance_obj C =
     \<lparr>callback_type = Method, func_ptr = nullptr,
      method_info = \<lparr>inst = instance_obj, method_ptr = reinterpret_cast_void ptr,
                     instance_type = typeid C\<rparr>,
      func = Some (bound_call instance_obj ptr)\<rparr>"

text \<open>The copy constructor.\<close>

definition copy_construct :: "ComparableCallback \<Rightarrow> ComparableCallback" where
  "copy_construct other =
     \<lparr>callback_type = callback_type other, func_ptr = func_ptr other,
      method_info = method_info other, func = func other\<rparr>"

text \<open>
  The move constructor returns the new object and what is left of \<open>other\<close>. The
  standard leaves a moved-from \<open>std::function\<close> in a valid but unspecified state; the
  common libraries leave it empty, which is what is written here, and no statement
  below depends on it.
\<close>

definition move_construct :: "ComparableCallback \<Rightarrow> ComparableCallback \<times> ComparableCallback" where
  "move_construct other =
     (\<lparr>callback_type = callback_type other, func_ptr = func_ptr other,
       method_info = method_info other, func = func other\<rparr>,
      other\<lparr>func_ptr := nullptr, func := None\<rparr>)"

text \<open>
  The assignment operators compare \<open>this\<close> with \<open>&other\<close>, so they act on a store of
  callback objects, addressed by location.
\<close>

definition copy_assign ::
  "addr \<Rightarrow> addr \<Rightarrow> (addr \<Rightarrow> ComparableCallback) \<Rightarrow> (addr \<Rightarrow> ComparableCallback)" where
  "copy_assign this other s =
     (if this \<noteq> other then s(this := copy_construct (s other)) else s)"

definition move_assign ::
  "addr \<Rightarrow> addr \<Rightarrow> (addr \<Rightarrow> ComparableCallback) \<Rightarrow> (addr \<Rightarrow> ComparableCallback)" where
  "move_assign this other s =
     (if this \<noteq> other
      then (s(this := fst (move_construct (s other))))(other := snd (move_construct (s other)))
      else s)"

definition release :: "ComparableCallback \<Rightarrow> ComparableCallback" where
  "release c = c\<lparr>func := None, func_ptr := nullptr\<rparr>"

text \<open>\<open>ComparableCallback::operator==\<close>.\<close>

definition operator_eq :: "ComparableCallback \<Rightarrow> ComparableCallback \<Rightarrow> bool" where
  "operator_eq c other =
     (if callback_type c \<noteq> callback_type other then False
      else if callback_type c = Function then func_ptr c = func_ptr other
      else BaseInfo_eq (method_info c) (method_info other))"

definition make_func :: "addr \<Rightarrow> ComparableCallback" where
  "make_func f = ComparableCallback_raw f"

definition make_func_method :: "member_pointer \<Rightarrow> addr \<Rightarrow> nat \<Rightarrow> ComparableCallback" where
  "make_func_method method instance_obj C = ComparableCallback_method method instance_obj C"

definition make_const_func :: "member_pointer \<Rightarrow> addr \<Rightarrow> nat \<Rightarrow> ComparableCallback" where
  "make_const_func method instance_obj C = ComparableCallback_const_method method instance_obj C"

subsection \<open>Priorities and handler lists\<close>

datatype EventPriority = VeryLow | Low | Default | High | VeryHigh

text \<open>\<open>static_cast<int>\<close> of the enumerators \<open>0x1B\<close>, \<open>0x2B\<close>, \<open>0x3B\<close>, \<open>0x4B\<close>, \<open>0x5B\<close>.\<close>

fun static_cast_int :: "EventPriority \<Rightarrow> int" where
  "static_cast_int VeryLow = 27"
| "static_cast_int Low = 43"
| "static_cast_int Default = 59"
| "static_cast_int High = 75"
| "static_cast_int VeryHigh = 91"

type_synonym t_callbacks = "(ComparableCallback \<times> EventPriority) list"

record SimpleUserEventHandler =
  callbacks :: t_callbacks
  mutex :: bool

text \<open>The comparison lambda that \<open>add_callback\<close> passes to \<open>std::sort\<close>.\<close>

definition priority_greater ::
  "ComparableCallback \<times> EventPriority \<Rightarrow> ComparableCallback \<times> EventPriority \<Rightarrow> bool" where
  "priority_greater a b \<longleftrightarrow> static_cast_int (snd a) > static_cast_int (snd b)"

text \<open>
  \<open>std::sort\<close> belongs to the C++ standard library, not to this repository, so the
  handler takes it as a parameter. The standard promises of it exactly this: the
  result is a rearrangement of the range in which no element compares before an
  earlier one. It does not promise to keep the order of equivalent elements.
\<close>

definition std_sort_contract ::
  "(('a \<Rightarrow> 'a \<Rightarrow> bool) \<Rightarrow> 'a list \<Rightarrow> 'a list) \<Rightarrow> ('a \<Rightarrow> 'a \<Rightarrow> bool) \<Rightarrow> bool" where
  "std_sort_contract std_sort cmp \<longleftrightarrow>
     (\<forall>xs. mset (std_sort cmp xs) = mset xs \<and>
           sorted_wrt (\<lambda>a b. \<not> cmp b a) (std_sort cmp xs))"

type_synonym sort_fn =
  "(ComparableCallback \<times> EventPriority \<Rightarrow> ComparableCallback \<times> EventPriority \<Rightarrow> bool)
     \<Rightarrow> t_callbacks \<Rightarrow> t_callbacks"

definition add_callback ::
  "MutexPolicy \<Rightarrow> sort_fn \<Rightarrow> ComparableCallback \<Rightarrow> EventPriority
     \<Rightarrow> SimpleUserEventHandler \<Rightarrow> SimpleUserEventHandler option" where
  "add_callback M std_sort callback priority h =
     do {
       m \<leftarrow> lock M (mutex h);
       let pushed = callbacks h @ [(callback, priority)];
       Some \<lparr>callbacks = std_sort priority_greater pushed, mutex = unlock M m\<rparr>
     }"

text \<open>
  The loop of \<open>find_callback_it\<close>; an iterator is an index, \<open>end()\<close> the length of the
  vector.
\<close>

fun find_from :: "ComparableCallback \<Rightarrow> t_callbacks \<Rightarrow> nat \<Rightarrow> nat" where
  "find_from callback [] it = it"
| "find_from callback (e # es) it =
     (if operator_eq (fst e) callback then it else find_from callback es (Suc it))"

definition find_callback_it ::
  "MutexPolicy \<Rightarrow> ComparableCallback \<Rightarrow> SimpleUserEventHandler
     \<Rightarrow> (nat \<times> SimpleUserEventHandler) option" where
  "find_callback_it M callback h =
     do {
       m \<leftarrow> lock M (mutex h);
       Some (find_from callback (callbacks h) 0, h\<lparr>mutex := unlock M m\<rparr>)
     }"

definition erase :: "nat \<Rightarrow> 'a list \<Rightarrow> 'a list" where
  "erase it xs = take it xs @ drop (Suc it) xs"

text \<open>
  \<open>delete_callback\<close> takes the lock and, holding it, calls \<open>find_callback_it\<close>, which
  takes the same lock again.
\<close>

definition delete_callback ::
  "MutexPolicy \<Rightarrow> ComparableCallback \<Rightarrow> SimpleUserEventHandler
     \<Rightarrow> SimpleUserEventHandler option" where
  "delete_callback M callback h =
     do {
       m \<leftarrow> lock M (mutex h);
       (it, h1) \<leftarrow> find_callback_it M callback (h\<lparr>mutex := m\<rparr>);
       let h2 = (if it \<noteq> length (callbacks h1)
                 then h1\<lparr>callbacks := erase it (callbacks h1)\<rparr> else h1);
       Some (h2\<lparr>mutex := unlock M (mutex h2)\<rparr>)
     }"

definition get_callbacks :: "SimpleUserEventHandler \<Rightarrow> t_callbacks" where
  "get_callbacks h = callbacks h"

subsection \<open>EventBus\<close>

record EventBus =
  handlers :: "type_index \<Rightarrow> SimpleUserEventHandler option"
  bus_mutex :: bool

definition make_unique :: SimpleUserEventHandler where
  "make_unique = \<lparr>callbacks = [], mutex = False\<rparr>"

definition Subscribe ::
  "MutexPolicy \<Rightarrow> sort_fn \<Rightarrow> type_index \<Rightarrow> ComparableCallback \<Rightarrow> EventPriority
     \<Rightarrow> EventBus \<Rightarrow> EventBus option" where
  "Subscribe M std_sort index callback priority bus =
     do {
       m \<leftarrow> lock M (bus_mutex bus);
       let hs = (if handlers bus index = None
                 then (handlers bus)(index \<mapsto> make_unique) else handlers bus);
       h' \<leftarrow> Option.bind (hs index) (add_callback M std_sort callback priority);
       Some \<lparr>handlers = hs(index \<mapsto> h'), bus_mutex = unlock M m\<rparr>
     }"

definition Unsubscribe ::
  "MutexPolicy \<Rightarrow> type_index \<Rightarrow> ComparableCallback \<Rightarrow> EventBus \<Rightarrow> (bool \<times> EventBus) option" where
  "Unsubscribe M index callback bus =
     do {
       m \<leftarrow> lock M (bus_mutex bus);
       (case handlers bus index of
          Some h \<Rightarrow>
            do {
              h' \<leftarrow> delete_callback M callback h;
              Some (True, \<lparr>handlers = (handlers bus)(index \<mapsto> h'), bus_mutex = unlock M m\<rparr>)
            }
        | None \<Rightarrow> Some (False, bus\<lparr>bus_mutex := unlock M m\<rparr>))
     }"

subsection \<open>User code\<close>

text \<open>
  What a subscribed function or method does when called is the caller's program, not
  the library's: it is a table from call targets to bodies. A body changes the event it
  is handed (and returns a \<open>U\<close>), and may call \<open>Subscribe\<close> and \<open>Unsubscribe\<close> on the
  bus. Bodies that publish from inside a callback are not covered.
\<close>

datatype bus_call =
  call_Subscribe type_index ComparableCallback EventPriority
| call_Unsubscribe type_index ComparableCallback

record ('t, 'u) body =
  effect :: "'t \<Rightarrow> 't \<times> 'u"
  bus_calls :: "bus_call list"

fun run_bus_calls :: "MutexPolicy \<Rightarrow> sort_fn \<Rightarrow> bus_call list \<Rightarrow> EventBus \<Rightarrow> EventBus option" where
  "run_bus_calls M std_sort [] bus = Some bus"
| "run_bus_calls M std_sort (call_Subscribe index callback priority # rest) bus =
     Option.bind (Subscribe M std_sort index callback priority bus) (run_bus_calls M std_sort rest)"
| "run_bus_calls M std_sort (call_Unsubscribe index callback # rest) bus =
     Option.bind (Unsubscribe M index callback bus)
       (\<lambda>r. run_bus_calls M std_sort rest (snd r))"

text \<open>
  \<open>ComparableCallback::invoke\<close>: \<open>if (func) func(arg);\<close>. Its return type is \<open>void\<close>: the
  \<open>U\<close> that the body returns is dropped.
\<close>

definition invoke ::
  "MutexPolicy \<Rightarrow> sort_fn \<Rightarrow> (target \<Rightarrow> ('t, 'u) body) \<Rightarrow> ComparableCallback
     \<Rightarrow> 't \<times> EventBus \<Rightarrow> ('t \<times> EventBus) option" where
  "invoke M std_sort prog c w =
     (case func c of
        None \<Rightarrow> Some w
      | Some t \<Rightarrow>
          do {
            bus' \<leftarrow> run_bus_calls M std_sort (bus_calls (prog t)) (snd w);
            Some (fst (effect (prog t) (fst w)), bus')
          })"

text \<open>The range-for loops of \<open>invoke_all\<close> and \<open>Publish\<close>.\<close>

fun for_each_invoke ::
  "MutexPolicy \<Rightarrow> sort_fn \<Rightarrow> (target \<Rightarrow> ('t, 'u) body) \<Rightarrow> t_callbacks
     \<Rightarrow> 't \<times> EventBus \<Rightarrow> ('t \<times> EventBus) option" where
  "for_each_invoke M std_sort prog [] w = Some w"
| "for_each_invoke M std_sort prog (e # es) w =
     Option.bind (invoke M std_sort prog (fst e) w) (for_each_invoke M std_sort prog es)"

text \<open>
  \<open>invoke_all\<close>, the branch for \<open>U = void\<close>, on a handler list that is not one of the
  bus's (those are private to the bus). The other branch assigns the \<open>void\<close> result of
  \<open>invoke\<close> to a \<open>U\<close> and has no instance.
\<close>

definition invoke_all ::
  "MutexPolicy \<Rightarrow> sort_fn \<Rightarrow> (target \<Rightarrow> ('t, unit) body) \<Rightarrow> SimpleUserEventHandler
     \<Rightarrow> 't \<times> EventBus \<Rightarrow> (('t \<times> EventBus) \<times> SimpleUserEventHandler) option" where
  "invoke_all M std_sort prog h w =
     do {
       m \<leftarrow> lock M (mutex h);
       w' \<leftarrow> for_each_invoke M std_sort prog (callbacks h) w;
       Some (w', h\<lparr>mutex := unlock M m\<rparr>)
     }"

definition Publish ::
  "MutexPolicy \<Rightarrow> sort_fn \<Rightarrow> (target \<Rightarrow> ('t, 'u) body) \<Rightarrow> type_index \<Rightarrow> 't \<Rightarrow> EventBus
     \<Rightarrow> (bool \<times> 't \<times> EventBus) option" where
  "Publish M std_sort prog index arg bus =
     do {
       m \<leftarrow> lock M (bus_mutex bus);
       (case handlers bus index of
          None \<Rightarrow> Some (False, arg, bus\<lparr>bus_mutex := unlock M m\<rparr>)
        | Some handler \<Rightarrow>
            do {
              let callbacks_copy = get_callbacks handler;
              w \<leftarrow> for_each_invoke M std_sort prog callbacks_copy
                     (arg, bus\<lparr>bus_mutex := unlock M m\<rparr>);
              Some (True, w)
            })
     }"

subsection \<open>Notions used in the statements\<close>

text \<open>A store of callback objects in which every location holds \<open>c\<close>.\<close>

definition store_of :: "ComparableCallback \<Rightarrow> addr \<Rightarrow> ComparableCallback" where
  "store_of c a = c"

text \<open>A default-constructed \<open>EventBus\<close>: no handler list, the registry lock free.\<close>

definition EventBus_init :: EventBus where
  "EventBus_init = \<lparr>handlers = (\<lambda>index. None), bus_mutex = False\<rparr>"

text \<open>The entries registered for an event type; none when the type has no list.\<close>

definition entries_of :: "EventBus \<Rightarrow> type_index \<Rightarrow> t_callbacks" where
  "entries_of bus index = (case handlers bus index of None \<Rightarrow> [] | Some h \<Rightarrow> callbacks h)"

text \<open>
  No lock is held: the state of a bus between two calls of its interface, and also
  while \<open>Publish\<close> runs the callbacks.
\<close>

definition quiescent :: "EventBus \<Rightarrow> bool" where
  "quiescent bus \<longleftrightarrow>
     \<not> bus_mutex bus \<and> (\<forall>index h. handlers bus index = Some h \<longrightarrow> \<not> mutex h)"

text \<open>What \<open>delete_callback\<close> leaves of the vector, written with the iterator it finds.\<close>

definition remove_found :: "ComparableCallback \<Rightarrow> t_callbacks \<Rightarrow> t_callbacks" where
  "remove_found c xs =
     (if find_from c xs 0 \<noteq> length xs then erase (find_from c xs 0) xs else xs)"

text \<open>The list without its first entry whose callback compares equal to \<open>c\<close>.\<close>

fun remove_first :: "ComparableCallback \<Rightarrow> t_callbacks \<Rightarrow> t_callbacks" where
  "remove_first c [] = []"
| "remove_first c (e # es) = (if operator_eq (fst e) c then es else e # remove_first c es)"

text \<open>Non-increasing priority, the order \<open>add_callback\<close> sorts into.\<close>

definition by_priority ::
  "ComparableCallback \<times> EventPriority \<Rightarrow> ComparableCallback \<times> EventPriority \<Rightarrow> bool" where
  "by_priority a b \<longleftrightarrow> static_cast_int (snd a) \<ge> static_cast_int (snd b)"

text \<open>
  The stable insertion sort: the elements are inserted one by one into a sorted prefix,
  each behind the elements equivalent to it. It meets the contract of \<open>std::sort\<close>, and
  it is what the \<open>std::sort\<close> of libstdc++ computes on ranges of up to 16 elements
  (\<open>gnu_sort_short\<close> below).
\<close>

fun insert_by :: "('a \<Rightarrow> 'a \<Rightarrow> bool) \<Rightarrow> 'a \<Rightarrow> 'a list \<Rightarrow> 'a list" where
  "insert_by cmp x [] = [x]"
| "insert_by cmp x (y # ys) = (if cmp x y then x # y # ys else y # insert_by cmp x ys)"

definition insertion_sort :: "('a \<Rightarrow> 'a \<Rightarrow> bool) \<Rightarrow> 'a list \<Rightarrow> 'a list" where
  "insertion_sort cmp xs = foldl (\<lambda>sorted x. insert_by cmp x sorted) [] xs"

text \<open>
  A program whose callbacks make themselves visible: the event is a log, and every
  body appends its own call target to it; \<open>calls_of\<close> gives the calls each body makes
  on the bus. \<open>targets\<close> lists the call targets of the entries that hold one.
\<close>

definition logging :: "(target \<Rightarrow> bus_call list) \<Rightarrow> target \<Rightarrow> (target list, unit) body" where
  "logging calls_of t = \<lparr>effect = (\<lambda>log. (log @ [t], ())), bus_calls = calls_of t\<rparr>"

definition no_bus_calls :: "target \<Rightarrow> bus_call list" where
  "no_bus_calls t = []"

definition targets :: "t_callbacks \<Rightarrow> target list" where
  "targets cs = List.map_filter (\<lambda>e. func (fst e)) cs"

text \<open>The bodies of the entries call nothing but \<open>Subscribe\<close>.\<close>

fun is_call_Subscribe :: "bus_call \<Rightarrow> bool" where
  "is_call_Subscribe (call_Subscribe index callback priority) = True"
| "is_call_Subscribe (call_Unsubscribe index callback) = False"

definition subscribes_only :: "(target \<Rightarrow> ('t, 'u) body) \<Rightarrow> t_callbacks \<Rightarrow> bool" where
  "subscribes_only prog cs \<longleftrightarrow>
     list_all (\<lambda>e. case func (fst e) of
                     None \<Rightarrow> True
                   | Some t \<Rightarrow> list_all is_call_Subscribe (bus_calls (prog t))) cs"

text \<open>The calls on the bus that the bodies of the entries make.\<close>

definition subscribed_in :: "(target \<Rightarrow> ('t, 'u) body) \<Rightarrow> t_callbacks \<Rightarrow> bus_call set" where
  "subscribed_in prog cs =
     (\<Union>e \<in> set cs. case func (fst e) of None \<Rightarrow> {} | Some t \<Rightarrow> set (bus_calls (prog t)))"

text \<open>Subscribing a list of callbacks, one \<open>Subscribe\<close> call after the other.\<close>

fun subscribe_all ::
  "MutexPolicy \<Rightarrow> sort_fn \<Rightarrow> type_index \<Rightarrow> t_callbacks \<Rightarrow> EventBus \<Rightarrow> EventBus option" where
  "subscribe_all M std_sort index [] bus = Some bus"
| "subscribe_all M std_sort index (e # es) bus =
     Option.bind (Subscribe M std_sort index (fst e) (snd e) bus)
       (subscribe_all M std_sort index es)"


text \<open>
  A caller's sequence of calls on the bus. \<open>run\<close> executes it and collects, in
  \<open>subscribed_types\<close>, the event types of all \<open>Subscribe\<close> calls made on the way: those of
  the sequence and those made by the callbacks that a \<open>Publish\<close> invokes.
\<close>

fun call_types :: "bus_call \<Rightarrow> type_index list" where
  "call_types (call_Subscribe index callback priority) = [index]"
| "call_types (call_Unsubscribe index callback) = []"

definition body_types :: "(target \<Rightarrow> ('t, 'u) body) \<Rightarrow> ComparableCallback \<Rightarrow> type_index list" where
  "body_types prog c =
     (case func c of None \<Rightarrow> [] | Some t \<Rightarrow> concat (map call_types (bus_calls (prog t))))"

datatype 't api_call =
  api_Subscribe type_index ComparableCallback EventPriority
| api_Unsubscribe type_index ComparableCallback
| api_Publish type_index 't

fun api_step ::
  "MutexPolicy \<Rightarrow> sort_fn \<Rightarrow> (target \<Rightarrow> ('t, 'u) body) \<Rightarrow> 't api_call \<Rightarrow> EventBus
     \<Rightarrow> EventBus option" where
  "api_step M std_sort prog (api_Subscribe index callback priority) bus =
     Subscribe M std_sort index callback priority bus"
| "api_step M std_sort prog (api_Unsubscribe index callback) bus =
     map_option snd (Unsubscribe M index callback bus)"
| "api_step M std_sort prog (api_Publish index arg) bus =
     map_option (\<lambda>r. snd (snd r)) (Publish M std_sort prog index arg bus)"

fun subscribed_types ::
  "(target \<Rightarrow> ('t, 'u) body) \<Rightarrow> 't api_call \<Rightarrow> EventBus \<Rightarrow> type_index list" where
  "subscribed_types prog (api_Subscribe index callback priority) bus = [index]"
| "subscribed_types prog (api_Unsubscribe index callback) bus = []"
| "subscribed_types prog (api_Publish index arg) bus =
     concat (map (\<lambda>e. body_types prog (fst e)) (entries_of bus index))"

fun run ::
  "MutexPolicy \<Rightarrow> sort_fn \<Rightarrow> (target \<Rightarrow> ('t, 'u) body) \<Rightarrow> 't api_call list \<Rightarrow> EventBus
     \<Rightarrow> (type_index list \<times> EventBus) option" where
  "run M std_sort prog [] bus = Some ([], bus)"
| "run M std_sort prog (call # calls) bus =
     do {
       bus1 \<leftarrow> api_step M std_sort prog call bus;
       (types, bus') \<leftarrow> run M std_sort prog calls bus1;
       Some (subscribed_types prog call bus @ types, bus')
     }"

subsection \<open>std::sort in GNU libstdc++\<close>
























































subsection \<open>example/main.cpp\<close>

text \<open>
  \<open>damage\<close> is a C++ \<open>int\<close>; signed overflow is undefined there, and the run below stays
  far from it, so the field is an integer. In this program every function of type
  \<open>void(AttackEvent&)\<close> is \<open>base_attack\<close> and every bound method is \<open>Player::attack\<close>.
  \<open>main\<close> returns the damage it prints.
\<close>

record AttackEvent =
  damage :: int

definition base_attack :: "AttackEvent \<Rightarrow> AttackEvent" where
  "base_attack attack_event =
     (if damage attack_event \<le> 0 then attack_event\<lparr>damage := 1\<rparr> else attack_event)"

definition Player_attack :: "AttackEvent \<Rightarrow> AttackEvent" where
  "Player_attack attack_event = attack_event\<lparr>damage := damage attack_event + 150\<rparr>"

fun example_prog :: "target \<Rightarrow> (AttackEvent, unit) body" where
  "example_prog (raw_call f) = \<lparr>effect = (\<lambda>e. (base_attack e, ())), bus_calls = []\<rparr>"
| "example_prog (bound_call obj m) = \<lparr>effect = (\<lambda>e. (Player_attack e, ())), bus_calls = []\<rparr>"

definition main ::
  "sort_fn \<Rightarrow> addr \<Rightarrow> member_pointer \<Rightarrow> addr \<Rightarrow> nat \<Rightarrow> nat \<Rightarrow> int option" where
  "main std_sort base_attack_ptr attack_ptr player AttackEvent_id Player_id =
     do {
       let attack_event = \<lparr>damage = 0\<rparr>;
       let event_bus = EventBus_init;
       event_bus \<leftarrow> Subscribe null_mutex std_sort (typeid AttackEvent_id)
                      (make_func base_attack_ptr) High event_bus;
       event_bus \<leftarrow> Subscribe null_mutex std_sort (typeid AttackEvent_id)
                      (make_func_method attack_ptr player Player_id) Default event_bus;
       r \<leftarrow> Publish null_mutex std_sort example_prog (typeid AttackEvent_id)
              attack_event event_bus;
       Some (damage (fst (snd r)))
     }"

subsection \<open>Small scenarios\<close>

text \<open>
  A bus with one handler list, for event type 7. In \<open>late_subscriber\<close> the function at
  address 1 subscribes the function at address 3 when it is called; in \<open>unsubscriber\<close>
  it unsubscribes the function at address 2.
\<close>

definition bus_of :: "t_callbacks \<Rightarrow> EventBus" where
  "bus_of cs = \<lparr>handlers = (\<lambda>index. None)(typeid 7 \<mapsto> \<lparr>callbacks = cs, mutex = False\<rparr>),
                bus_mutex = False\<rparr>"

definition late_subscriber :: "target \<Rightarrow> bus_call list" where
  "late_subscriber t =
     (if t = raw_call 1 then [call_Subscribe (typeid 7) (make_func 3) VeryHigh] else [])"

definition unsubscriber :: "target \<Rightarrow> bus_call list" where
  "unsubscriber t =
     (if t = raw_call 1 then [call_Unsubscribe (typeid 7) (make_func 2)] else [])"

section \<open>Properties\<close>

subsection \<open>Locks and handler lists\<close>

lemma lock_free: "lock M False = Some (M = std_mutex)"
  by (cases M) simp_all

lemma unlock_after_lock: "unlock M (M = std_mutex) = False"
  by (cases M) simp_all

lemma add_callback_free:
  "\<not> mutex h \<Longrightarrow> add_callback M srt c p h =
     Some \<lparr>callbacks = srt priority_greater (callbacks h @ [(c, p)]), mutex = False\<rparr>"
  by (simp add: add_callback_def lock_free unlock_after_lock)

lemma delete_callback_std: "delete_callback std_mutex c h = None"
  by (simp add: delete_callback_def find_callback_it_def)

lemma delete_callback_null:
  "delete_callback null_mutex c h = Some (h\<lparr>callbacks := remove_found c (callbacks h)\<rparr>)"
  by (simp add: delete_callback_def find_callback_it_def remove_found_def)

lemma find_from_shift: "find_from c xs i = i + find_from c xs 0"
proof (induction xs arbitrary: i)
  case Nil
  then show ?case by simp
next
  case (Cons e es)
  have "find_from c es (Suc i) = Suc i + find_from c es 0" by (rule Cons.IH)
  moreover have "find_from c es (Suc 0) = Suc 0 + find_from c es 0" by (rule Cons.IH)
  ultimately show ?case by simp
qed

lemma remove_found_eq: "remove_found c xs = remove_first c xs"
proof (induction xs)
  case Nil
  then show ?case by (simp add: remove_found_def)
next
  case (Cons e es)
  show ?case
  proof (cases "operator_eq (fst e) c")
    case True
    then show ?thesis by (simp add: remove_found_def erase_def)
  next
    case False
    have s: "find_from c es (Suc 0) = Suc (find_from c es 0)"
      using find_from_shift [of c es "Suc 0"] by simp
    from False Cons show ?thesis
      by (auto simp: remove_found_def erase_def s split: if_splits)
  qed
qed

subsection \<open>Callback identity\<close>

lemmas cb_defs = operator_eq_def BaseInfo_eq_def make_func_def make_func_method_def
  make_const_func_def ComparableCallback_raw_def ComparableCallback_method_def
  ComparableCallback_const_method_def reinterpret_cast_void_def

text \<open>
  C6, as the specification states it, fails in its last part: only the first word of a
  pointer to member function is stored and compared. Take a class \<open>D\<close> with two bases
  that each declare one virtual method: the pointers to the two methods agree in their
  first word (the same vtable slot) and differ in the adjustment of \<open>this\<close>, here 0 and
  8. They are different methods, and their wrappers on one object compare equal.
\<close>

theorem different_methods_compare_equal:
  "member_pointer 1 [0] \<noteq> member_pointer 1 [8] \<and>
   operator_eq (make_func_method (member_pointer 1 [0]) 8192 2)
     (make_func_method (member_pointer 1 [8]) 8192 2)"
  by (simp add: cb_defs)

text \<open>
  C6, amended. Two callbacks compare equal exactly when they are of the same variant and,
  for free functions, hold the same function pointer, or, for bound methods, agree on
  the object address, the stored method-pointer word and the owner type. So
  \<open>make_func(f)\<close> equals \<open>make_func(g)\<close> exactly when \<open>f = g\<close>; two bound-method wrappers
  are equal exactly when the objects, the classes and the first words of the method
  pointers agree, so a wrapper equals another wrapper of the same method on the same
  object and differs from it when the object or the first word of the method pointer
  differs; and a free-function wrapper never equals a bound-method wrapper.
\<close>

theorem operator_eq_identity:
  "(operator_eq a b \<longleftrightarrow>
      callback_type a = callback_type b \<and>
      (case callback_type a of
         Function \<Rightarrow> func_ptr a = func_ptr b
       | Method \<Rightarrow> inst (method_info a) = inst (method_info b) \<and>
                   method_ptr (method_info a) = method_ptr (method_info b) \<and>
                   instance_type (method_info a) = instance_type (method_info b))) \<and>
   (operator_eq (make_func f) (make_func g) \<longleftrightarrow> f = g) \<and>
   method_ptr (method_info (make_func_method m obj C)) = first_word m \<and>
   (operator_eq (make_func_method m obj C) (make_func_method m' obj' C') \<longleftrightarrow>
      obj = obj' \<and> first_word m = first_word m' \<and> C = C') \<and>
   (operator_eq (make_const_func m obj C) (make_func_method m' obj' C') \<longleftrightarrow>
      obj = obj' \<and> first_word m = first_word m' \<and> C = C') \<and>
   \<not> operator_eq (make_func f) (make_func_method m obj C) \<and>
   \<not> operator_eq (make_func_method m obj C) (make_func f)"
  by (cases "callback_type a") (auto simp: cb_defs)

text \<open>
  C7, as the specification states it, fails: \<open>release\<close> also clears \<open>func_ptr\<close>, so a
  released wrapper of the function at address 4096 no longer equals a fresh wrapper of
  that function.
\<close>

theorem release_breaks_function_identity:
  "\<not> operator_eq (release (make_func 4096)) (make_func 4096)"
  by (simp add: cb_defs release_def)

text \<open>
  C7, amended. After \<open>release\<close>, \<open>invoke\<close> returns at once and leaves the event and the
  bus as they were. A released bound-method callback compares equal to exactly the
  callbacks it equalled before, in particular to a fresh wrapper of the same method on
  the same object. A released free-function callback compares equal to exactly the
  free-function callbacks whose pointer is null, so it equals a fresh \<open>make_func(f)\<close>
  only for a null \<open>f\<close>.
\<close>

theorem release_invoke_and_identity:
  "invoke M std_sort prog (release c) w = Some w \<and>
   operator_eq (release c) d =
     (if callback_type c = Function then callback_type d = Function \<and> func_ptr d = nullptr
      else operator_eq c d) \<and>
   operator_eq (release (make_func_method m obj C)) (make_func_method m obj C) \<and>
   (operator_eq (release (make_func f)) (make_func f) \<longleftrightarrow> f = nullptr)"
  by (auto simp: cb_defs release_def invoke_def)

text \<open>
  C10, as stated, fails at the edges: moving from a free-function callback whose pointer
  is already null leaves it equal to its former value, and a move-assignment of an
  object to itself changes nothing.
\<close>

theorem moved_from_still_equal:
  "operator_eq (snd (move_construct (make_func nullptr))) (make_func nullptr) \<and>
   func_ptr (move_assign 1 1 (store_of (make_func 4096)) 1) = 4096"
  by (simp add: cb_defs move_construct_def move_assign_def store_of_def)

text \<open>
  C10, amended. A copy compares equal to its original, and so does the object a callback
  was moved into. The moved-from object keeps its variant and its \<open>method_info\<close> and has
  a null \<open>func_ptr\<close>: a moved-from bound-method callback still equals its former value
  and its copies, a moved-from free-function callback equals them only when its pointer
  was null already. Move-assignment acts the same way between two different objects and
  does nothing when source and destination are one object.
\<close>

theorem copy_move_identity:
  "operator_eq (copy_construct c) c \<and> operator_eq c (copy_construct c) \<and>
   copy_assign this other s this = s other \<and>
   operator_eq (fst (move_construct c)) (copy_construct c) \<and>
   func_ptr (snd (move_construct c)) = nullptr \<and>
   method_info (snd (move_construct c)) = method_info c \<and>
   callback_type (snd (move_construct c)) = callback_type c \<and>
   operator_eq (snd (move_construct c)) c =
     (if callback_type c = Function then func_ptr c = nullptr else True) \<and>
   operator_eq (snd (move_construct c)) (copy_construct c) =
     (if callback_type c = Function then func_ptr c = nullptr else True) \<and>
   move_assign this other s other =
     (if this \<noteq> other then snd (move_construct (s other)) else s other) \<and>
   move_assign this other s this =
     (if this \<noteq> other then fst (move_construct (s other)) else s this)"
  by (auto simp: cb_defs copy_construct_def move_construct_def copy_assign_def
      move_assign_def)

subsection \<open>Sorting by priority\<close>

lemma not_priority_greater: "(\<not> priority_greater b a) = by_priority a b"
  by (auto simp: priority_greater_def by_priority_def)

lemma mset_insert_by: "mset (insert_by cmp x ys) = add_mset x (mset ys)"
  by (induction ys) auto

lemma set_insert_by: "set (insert_by cmp x ys) = insert x (set ys)"
  by (induction ys) auto

lemma sorted_insert_by:
  "sorted_wrt by_priority ys \<Longrightarrow> sorted_wrt by_priority (insert_by priority_greater x ys)"
  by (induction ys) (auto simp: set_insert_by priority_greater_def by_priority_def)

lemma foldl_insert_by:
  "mset (foldl (\<lambda>sorted x. insert_by cmp x sorted) acc xs) = mset acc + mset xs"
  by (induction xs arbitrary: acc) (auto simp: mset_insert_by)

lemma foldl_sorted_insert_by:
  "sorted_wrt by_priority acc \<Longrightarrow>
   sorted_wrt by_priority (foldl (\<lambda>sorted x. insert_by priority_greater x sorted) acc xs)"
  by (induction xs arbitrary: acc) (auto simp: sorted_insert_by)

lemma insertion_sort_contract: "std_sort_contract insertion_sort priority_greater"
  by (simp add: std_sort_contract_def insertion_sort_def foldl_insert_by
      not_priority_greater foldl_sorted_insert_by)

lemma contract_mset:
  "std_sort_contract srt priority_greater \<Longrightarrow> mset (srt priority_greater xs) = mset xs"
  by (simp add: std_sort_contract_def)

lemma contract_set:
  "std_sort_contract srt priority_greater \<Longrightarrow> set (srt priority_greater xs) = set xs"
  using contract_mset by (metis set_mset_mset)

lemma contract_sorted:
  "std_sort_contract srt priority_greater \<Longrightarrow> sorted_wrt by_priority (srt priority_greater xs)"
  by (simp add: std_sort_contract_def not_priority_greater)

lemma contract_single:
  assumes "std_sort_contract srt priority_greater"
  shows "srt priority_greater [x] = [x]"
proof -
  have "mset (srt priority_greater [x]) = {#x#}"
    using contract_mset [OF assms, of "[x]"] by simp
  then show ?thesis by (simp add: mset_single_iff_right)
qed

lemma contract_pair:
  assumes "std_sort_contract srt priority_greater" and "priority_greater x y"
  shows "srt priority_greater [x, y] = [x, y]"
proof -
  let ?L = "srt priority_greater [x, y]"
  have m: "mset ?L = {#x, y#}" using contract_mset [OF assms(1), of "[x, y]"] by simp
  have "size (mset ?L) = 2" unfolding m by simp
  then have "length ?L = Suc (Suc 0)" by simp
  then obtain a b where L: "?L = [a, b]"
    by (auto simp: length_Suc_conv)
  from m L have "(a = x \<and> b = y) \<or> (a = y \<and> b = x)"
    by (auto simp: add_eq_conv_ex)
  moreover have "by_priority a b" using contract_sorted [OF assms(1), of "[x, y]"] L by simp
  moreover have "\<not> by_priority y x"
    using assms(2) by (simp add: by_priority_def priority_greater_def)
  ultimately show ?thesis using L by auto
qed

subsection \<open>Subscribe and Unsubscribe\<close>

lemma quiescent_init: "quiescent EventBus_init"
  by (simp add: quiescent_def EventBus_init_def)

lemma Subscribe_quiescent:
  "quiescent bus \<Longrightarrow> Subscribe M srt T c p bus =
     Some \<lparr>handlers = (handlers bus)(T \<mapsto>
             \<lparr>callbacks = srt priority_greater (entries_of bus T @ [(c, p)]), mutex = False\<rparr>),
           bus_mutex = False\<rparr>"
  by (cases "handlers bus T")
    (auto simp: Subscribe_def quiescent_def entries_of_def lock_free unlock_after_lock
      make_unique_def add_callback_free)

lemma Subscribe_Some:
  assumes "Subscribe M srt T c p bus = Some bus'"
  shows "entries_of bus' T' =
           (if T' = T then srt priority_greater (entries_of bus T @ [(c, p)])
            else entries_of bus T')"
    and "dom (handlers bus') = insert T (dom (handlers bus))"
  using assms
  by (cases "handlers bus T";
      auto simp: Subscribe_def entries_of_def make_unique_def add_callback_def
        Option.bind_eq_Some_conv split: if_splits)+

lemma quiescent_Subscribe:
  "quiescent bus \<Longrightarrow> Subscribe M srt T c p bus = Some bus' \<Longrightarrow> quiescent bus'"
  by (auto simp: Subscribe_quiescent quiescent_def split: if_splits)

lemma Subscribe_null_total: "Subscribe null_mutex srt T c p bus \<noteq> None"
  by (cases "handlers bus T") (auto simp: Subscribe_def add_callback_def make_unique_def)

lemma Subscribe_grows:
  assumes "std_sort_contract srt priority_greater" and "Subscribe M srt T c p bus = Some bus'"
  shows "set (entries_of bus' T') = set (entries_of bus T') \<union> (if T' = T then {(c, p)} else {})"
  using Subscribe_Some(1) [OF assms(2), of T'] contract_set [OF assms(1)] by auto

lemma Unsubscribe_null:
  "Unsubscribe null_mutex T c bus =
     (case handlers bus T of
        None \<Rightarrow> Some (False, bus)
      | Some h \<Rightarrow> Some (True, bus\<lparr>handlers := (handlers bus)(T \<mapsto>
                       h\<lparr>callbacks := remove_first c (callbacks h)\<rparr>)\<rparr>))"
  by (cases "handlers bus T") (auto simp: Unsubscribe_def delete_callback_null remove_found_eq)

lemma Unsubscribe_absent:
  "\<not> bus_mutex bus \<Longrightarrow> handlers bus T = None \<Longrightarrow> Unsubscribe M T c bus = Some (False, bus)"
  by (simp add: Unsubscribe_def lock_free unlock_after_lock)

lemma Unsubscribe_std_present:
  "handlers bus T = Some h \<Longrightarrow> Unsubscribe std_mutex T c bus = None"
  by (simp add: Unsubscribe_def delete_callback_std)

lemma Unsubscribe_Some_dom:
  "Unsubscribe M T c bus = Some (r, bus') \<Longrightarrow> dom (handlers bus') = dom (handlers bus)"
  by (cases "handlers bus T")
    (auto simp: Unsubscribe_def Option.bind_eq_Some_conv split: if_splits)

lemma Unsubscribe_null_total: "Unsubscribe null_mutex T c bus \<noteq> None"
  by (cases "handlers bus T") (simp_all add: Unsubscribe_null)

lemma quiescent_Unsubscribe:
  "quiescent bus \<Longrightarrow> Unsubscribe M T c bus = Some (r, bus') \<Longrightarrow> quiescent bus'"
proof (cases M)
  case std_mutex
  assume q: "quiescent bus" and u: "Unsubscribe M T c bus = Some (r, bus')"
  show ?thesis
  proof (cases "handlers bus T")
    case None
    with q u show ?thesis by (simp add: Unsubscribe_absent quiescent_def)
  next
    case (Some h)
    with u std_mutex show ?thesis by (simp add: Unsubscribe_std_present)
  qed
next
  case null_mutex
  assume q: "quiescent bus" and u: "Unsubscribe M T c bus = Some (r, bus')"
  show ?thesis
    using q u null_mutex
    by (cases "handlers bus T") (auto simp: Unsubscribe_null quiescent_def split: if_splits)
qed

lemma remove_first_no_match:
  "\<forall>e \<in> set xs. \<not> operator_eq (fst e) c \<Longrightarrow> remove_first c xs = xs"
  by (induction xs) auto

lemma remove_first_match:
  "\<forall>e \<in> set pre. \<not> operator_eq (fst e) c \<Longrightarrow> operator_eq (fst e) c \<Longrightarrow>
   remove_first c (pre @ e # post) = pre @ post"
  by (induction pre) auto

subsection \<open>Calls made from inside callbacks\<close>

lemma run_bus_calls_null_total: "run_bus_calls null_mutex srt calls bus \<noteq> None"
proof (induction calls arbitrary: bus)
  case Nil
  then show ?case by simp
next
  case (Cons call calls)
  show ?case
  proof (cases call)
    case (call_Subscribe T c p)
    obtain bus1 where "Subscribe null_mutex srt T c p bus = Some bus1"
      using Subscribe_null_total by blast
    with call_Subscribe Cons.IH show ?thesis by simp
  next
    case (call_Unsubscribe T c)
    obtain r where "Unsubscribe null_mutex T c bus = Some r"
      using Unsubscribe_null_total by blast
    with call_Unsubscribe Cons.IH show ?thesis by simp
  qed
qed

lemma invoke_null_total: "invoke null_mutex srt prog c w \<noteq> None"
proof (cases "func c")
  case None
  then show ?thesis by (simp add: invoke_def)
next
  case (Some t)
  obtain bus' where "run_bus_calls null_mutex srt (bus_calls (prog t)) (snd w) = Some bus'"
    using run_bus_calls_null_total by blast
  with Some show ?thesis by (simp add: invoke_def)
qed

lemma for_each_invoke_null_total: "for_each_invoke null_mutex srt prog cs w \<noteq> None"
proof (induction cs arbitrary: w)
  case Nil
  then show ?case by simp
next
  case (Cons e es)
  obtain w1 where "invoke null_mutex srt prog (fst e) w = Some w1"
    using invoke_null_total by blast
  with Cons.IH show ?case by simp
qed

lemma run_bus_calls_subscribes:
  "quiescent bus \<Longrightarrow> list_all is_call_Subscribe calls \<Longrightarrow>
   \<exists>bus'. run_bus_calls M srt calls bus = Some bus' \<and> quiescent bus'"
proof (induction calls arbitrary: bus)
  case Nil
  then show ?case by simp
next
  case (Cons call calls)
  then obtain T c p where call: "call = call_Subscribe T c p"
    by (cases call) auto
  obtain bus1 where s: "Subscribe M srt T c p bus = Some bus1"
    using Cons.prems(1) by (simp add: Subscribe_quiescent)
  have "quiescent bus1" using Cons.prems(1) s by (rule quiescent_Subscribe)
  moreover have "list_all is_call_Subscribe calls" using Cons.prems(2) by simp
  ultimately obtain bus' where "run_bus_calls M srt calls bus1 = Some bus'" "quiescent bus'"
    using Cons.IH by blast
  with call s show ?case by simp
qed

lemma for_each_invoke_subscribes:
  "quiescent (snd w) \<Longrightarrow> subscribes_only prog cs \<Longrightarrow>
   \<exists>w'. for_each_invoke M srt prog cs w = Some w' \<and> quiescent (snd w')"
proof (induction cs arbitrary: w)
  case Nil
  then show ?case by simp
next
  case (Cons e es)
  have "\<exists>w1. invoke M srt prog (fst e) w = Some w1 \<and> quiescent (snd w1)"
  proof (cases "func (fst e)")
    case None
    with Cons.prems(1) show ?thesis by (simp add: invoke_def)
  next
    case (Some t)
    with Cons.prems(2) have "list_all is_call_Subscribe (bus_calls (prog t))"
      by (simp add: subscribes_only_def)
    with Cons.prems(1) obtain bus' where
      "run_bus_calls M srt (bus_calls (prog t)) (snd w) = Some bus'" "quiescent bus'"
      using run_bus_calls_subscribes by blast
    with Some show ?thesis by (simp add: invoke_def)
  qed
  then obtain w1 where w1: "invoke M srt prog (fst e) w = Some w1" "quiescent (snd w1)"
    by blast
  have "subscribes_only prog es" using Cons.prems(2) by (simp add: subscribes_only_def)
  with w1(2) obtain w' where "for_each_invoke M srt prog es w1 = Some w'" "quiescent (snd w')"
    using Cons.IH by blast
  with w1(1) show ?case by simp
qed

lemma quiescent_run_bus_calls:
  "quiescent bus \<Longrightarrow> run_bus_calls M srt calls bus = Some bus' \<Longrightarrow> quiescent bus'"
proof (induction calls arbitrary: bus)
  case Nil
  then show ?case by simp
next
  case (Cons call calls)
  show ?case
  proof (cases call)
    case (call_Subscribe T c p)
    with Cons.prems(2) obtain bus1 where
      s: "Subscribe M srt T c p bus = Some bus1" and
      r: "run_bus_calls M srt calls bus1 = Some bus'"
      by (auto simp: Option.bind_eq_Some_conv)
    from Cons.prems(1) s have "quiescent bus1" by (rule quiescent_Subscribe)
    then show ?thesis using r by (rule Cons.IH)
  next
    case (call_Unsubscribe T c)
    with Cons.prems(2) obtain b bus1 where
      s: "Unsubscribe M T c bus = Some (b, bus1)" and
      r: "run_bus_calls M srt calls bus1 = Some bus'"
      by (auto simp: Option.bind_eq_Some_conv)
    from Cons.prems(1) s have "quiescent bus1" by (rule quiescent_Unsubscribe)
    then show ?thesis using r by (rule Cons.IH)
  qed
qed

lemma quiescent_invoke:
  "quiescent (snd w) \<Longrightarrow> invoke M srt prog c w = Some w' \<Longrightarrow> quiescent (snd w')"
  by (cases "func c")
    (auto simp: invoke_def Option.bind_eq_Some_conv dest: quiescent_run_bus_calls)

lemma quiescent_for_each_invoke:
  "quiescent (snd w) \<Longrightarrow> for_each_invoke M srt prog cs w = Some w' \<Longrightarrow> quiescent (snd w')"
proof (induction cs arbitrary: w)
  case Nil
  then show ?case by simp
next
  case (Cons e es)
  from Cons.prems(2) obtain w1 where
    i: "invoke M srt prog (fst e) w = Some w1" and
    r: "for_each_invoke M srt prog es w1 = Some w'"
    by (auto simp: Option.bind_eq_Some_conv)
  from Cons.prems(1) i have "quiescent (snd w1)" by (rule quiescent_invoke)
  then show ?case using r by (rule Cons.IH)
qed

lemma run_bus_calls_grows:
  assumes "std_sort_contract srt priority_greater"
  shows "list_all is_call_Subscribe calls \<Longrightarrow> run_bus_calls M srt calls bus = Some bus' \<Longrightarrow>
    set (entries_of bus' T) =
      set (entries_of bus T) \<union> {(c, p). call_Subscribe T c p \<in> set calls}"
proof (induction calls arbitrary: bus)
  case Nil
  then show ?case by simp
next
  case (Cons call calls)
  from Cons.prems(1) obtain T1 c1 p1 where call: "call = call_Subscribe T1 c1 p1"
    by (cases call) auto
  with Cons.prems(2) obtain bus1 where
    s: "Subscribe M srt T1 c1 p1 bus = Some bus1" and
    r: "run_bus_calls M srt calls bus1 = Some bus'"
    by (auto simp: Option.bind_eq_Some_conv)
  have "list_all is_call_Subscribe calls" using Cons.prems(1) by simp
  from Cons.IH [OF this r] Subscribe_grows [OF assms s, of T] call
  show ?case by auto
qed

lemma for_each_invoke_grows:
  assumes "std_sort_contract srt priority_greater"
  shows "subscribes_only prog cs \<Longrightarrow> for_each_invoke M srt prog cs w = Some w' \<Longrightarrow>
    set (entries_of (snd w') T) =
      set (entries_of (snd w) T) \<union> {(c, p). call_Subscribe T c p \<in> subscribed_in prog cs}"
proof (induction cs arbitrary: w)
  case Nil
  then show ?case by (simp add: subscribed_in_def)
next
  case (Cons e es)
  from Cons.prems(2) obtain w1 where
    i: "invoke M srt prog (fst e) w = Some w1" and
    r: "for_each_invoke M srt prog es w1 = Some w'"
    by (auto simp: Option.bind_eq_Some_conv)
  have es: "subscribes_only prog es" using Cons.prems(1) by (simp add: subscribes_only_def)
  have step: "set (entries_of (snd w1) T) = set (entries_of (snd w) T) \<union>
      {(c, p). call_Subscribe T c p \<in>
         (case func (fst e) of None \<Rightarrow> {} | Some t \<Rightarrow> set (bus_calls (prog t)))}"
  proof (cases "func (fst e)")
    case None
    with i show ?thesis by (simp add: invoke_def)
  next
    case (Some t)
    with Cons.prems(1) have only: "list_all is_call_Subscribe (bus_calls (prog t))"
      by (simp add: subscribes_only_def)
    from i Some obtain bus1 where
      "run_bus_calls M srt (bus_calls (prog t)) (snd w) = Some bus1" and "snd w1 = bus1"
      by (auto simp: invoke_def Option.bind_eq_Some_conv)
    with run_bus_calls_grows [OF assms only, of M "snd w" bus1 T] Some show ?thesis by simp
  qed
  from Cons.IH [OF es r] step show ?case
    by (auto simp: subscribed_in_def)
qed

lemma run_bus_calls_dom:
  "run_bus_calls M srt calls bus = Some bus' \<Longrightarrow>
   dom (handlers bus') = dom (handlers bus) \<union> set (concat (map call_types calls))"
proof (induction calls arbitrary: bus)
  case Nil
  then show ?case by simp
next
  case (Cons call calls)
  show ?case
  proof (cases call)
    case (call_Subscribe T c p)
    with Cons.prems obtain bus1 where
      s: "Subscribe M srt T c p bus = Some bus1" and
      r: "run_bus_calls M srt calls bus1 = Some bus'"
      by (auto simp: Option.bind_eq_Some_conv)
    from Cons.IH [OF r] Subscribe_Some(2) [OF s] call_Subscribe show ?thesis by auto
  next
    case (call_Unsubscribe T c)
    with Cons.prems obtain b bus1 where
      s: "Unsubscribe M T c bus = Some (b, bus1)" and
      r: "run_bus_calls M srt calls bus1 = Some bus'"
      by (auto simp: Option.bind_eq_Some_conv)
    from Cons.IH [OF r] Unsubscribe_Some_dom [OF s] call_Unsubscribe show ?thesis by auto
  qed
qed

lemma invoke_dom:
  "invoke M srt prog c w = Some w' \<Longrightarrow>
   dom (handlers (snd w')) = dom (handlers (snd w)) \<union> set (body_types prog c)"
proof (cases "func c")
  case None
  assume "invoke M srt prog c w = Some w'"
  with None show ?thesis by (simp add: invoke_def body_types_def)
next
  case (Some t)
  assume "invoke M srt prog c w = Some w'"
  with Some obtain bus1 where
    r: "run_bus_calls M srt (bus_calls (prog t)) (snd w) = Some bus1" and "snd w' = bus1"
    by (auto simp: invoke_def Option.bind_eq_Some_conv)
  with run_bus_calls_dom [OF r] Some show ?thesis by (simp add: body_types_def)
qed

lemma for_each_invoke_dom:
  "for_each_invoke M srt prog cs w = Some w' \<Longrightarrow>
   dom (handlers (snd w')) =
     dom (handlers (snd w)) \<union> set (concat (map (\<lambda>e. body_types prog (fst e)) cs))"
proof (induction cs arbitrary: w)
  case Nil
  then show ?case by simp
next
  case (Cons e es)
  from Cons.prems obtain w1 where
    i: "invoke M srt prog (fst e) w = Some w1" and
    r: "for_each_invoke M srt prog es w1 = Some w'"
    by (auto simp: Option.bind_eq_Some_conv)
  from Cons.IH [OF r] invoke_dom [OF i] show ?case by auto
qed

subsection \<open>Publish\<close>

lemma bus_mutex_free: "\<not> bus_mutex bus \<Longrightarrow> bus\<lparr>bus_mutex := False\<rparr> = bus"
  by simp

lemma Publish_absent:
  "\<not> bus_mutex bus \<Longrightarrow> handlers bus T = None \<Longrightarrow>
   Publish M srt prog T arg bus = Some (False, arg, bus)"
  by (simp add: Publish_def lock_free unlock_after_lock)

lemma Publish_present:
  "\<not> bus_mutex bus \<Longrightarrow> handlers bus T = Some h \<Longrightarrow>
   Publish M srt prog T arg bus =
     map_option (Pair True) (for_each_invoke M srt prog (callbacks h) (arg, bus))"
  by (cases "for_each_invoke M srt prog (callbacks h) (arg, bus)")
    (simp_all add: Publish_def lock_free unlock_after_lock get_callbacks_def bus_mutex_free)

lemma Publish_Some_present:
  "handlers bus T = Some h \<Longrightarrow> Publish M srt prog T arg bus = Some r \<Longrightarrow> fst r = True"
  by (auto simp: Publish_def Option.bind_eq_Some_conv)

lemma Publish_null_total: "Publish null_mutex srt prog T arg bus \<noteq> None"
proof (cases "handlers bus T")
  case None
  then show ?thesis by (simp add: Publish_def)
next
  case (Some h)
  obtain w where "for_each_invoke null_mutex srt prog (callbacks h) (arg, bus) = Some w"
    using for_each_invoke_null_total by blast
  with Some show ?thesis by (simp add: Publish_def get_callbacks_def)
qed

lemma quiescent_Publish:
  assumes "quiescent bus" and "Publish M srt prog T arg bus = Some (r, arg', bus')"
  shows "quiescent bus'"
proof -
  have free: "\<not> bus_mutex bus" using assms(1) by (simp add: quiescent_def)
  show ?thesis
  proof (cases "handlers bus T")
    case None
    with free assms show ?thesis by (simp add: Publish_absent)
  next
    case (Some h)
    with free assms(2)
    have "for_each_invoke M srt prog (callbacks h) (arg, bus) = Some (arg', bus')"
      by (auto simp: Publish_present)
    with assms(1) show ?thesis using quiescent_for_each_invoke [of "(arg, bus)"] by fastforce
  qed
qed

lemma Publish_dom:
  assumes "Publish M srt prog T arg bus = Some (r, arg', bus')"
  shows "dom (handlers bus') =
     dom (handlers bus) \<union> set (concat (map (\<lambda>e. body_types prog (fst e)) (entries_of bus T)))"
proof (cases "handlers bus T")
  case None
  with assms show ?thesis
    by (auto simp: Publish_def entries_of_def Option.bind_eq_Some_conv)
next
  case (Some h)
  with assms obtain m where
    "for_each_invoke M srt prog (callbacks h) (arg, bus\<lparr>bus_mutex := m\<rparr>) = Some (arg', bus')"
    by (auto simp: Publish_def get_callbacks_def Option.bind_eq_Some_conv)
  from for_each_invoke_dom [OF this] Some show ?thesis by (simp add: entries_of_def)
qed

lemma bus_of_quiescent: "quiescent (bus_of cs)"
  by (simp add: quiescent_def bus_of_def)

lemma bus_of_handlers: "handlers (bus_of cs) (typeid 7) = Some \<lparr>callbacks = cs, mutex = False\<rparr>"
  by (simp add: bus_of_def)


lemmas eval_defs = Subscribe_def Unsubscribe_def Publish_def add_callback_def
  delete_callback_def find_callback_it_def erase_def make_unique_def insertion_sort_def
  cb_defs get_callbacks_def entries_of_def invoke_def logging_def
  priority_greater_def EventBus_init_def bus_of_def no_bus_calls_def

text \<open>
  C2. On a bus none of whose locks is held, \<open>Publish\<close> returns \<open>false\<close> exactly when the
  registry has no handler list for the event type, and then it leaves the event and the
  bus as they were, whatever the subscribed program is: no callback ran. When a list
  exists, \<open>Publish\<close> returns \<open>true\<close> as soon as the callbacks return, which they do under
  \<open>std::null_mutex\<close> and whenever they call nothing but \<open>Subscribe\<close>; with a list that
  holds no entry it returns \<open>true\<close> and changes nothing.
\<close>

theorem Publish_returns_false_iff_no_list:
  assumes "quiescent bus"
  shows "((\<exists>w. Publish M srt prog T arg bus = Some (False, w)) \<longleftrightarrow> handlers bus T = None) \<and>
         (handlers bus T = None \<longrightarrow> Publish M srt prog T arg bus = Some (False, arg, bus)) \<and>
         (\<forall>h. handlers bus T = Some h \<and> callbacks h = [] \<longrightarrow>
            Publish M srt prog T arg bus = Some (True, arg, bus)) \<and>
         (handlers bus T \<noteq> None \<and>
          (M = null_mutex \<or> subscribes_only prog (entries_of bus T)) \<longrightarrow>
            (\<exists>w. Publish M srt prog T arg bus = Some (True, w)))"
proof -
  have free: "\<not> bus_mutex bus" using assms by (simp add: quiescent_def)
  have a: "(\<exists>w. Publish M srt prog T arg bus = Some (False, w)) \<longleftrightarrow> handlers bus T = None"
  proof
    assume "\<exists>w. Publish M srt prog T arg bus = Some (False, w)"
    then obtain w where w: "Publish M srt prog T arg bus = Some (False, w)" by blast
    show "handlers bus T = None"
    proof (rule ccontr)
      assume "handlers bus T \<noteq> None"
      then obtain h where "handlers bus T = Some h" by blast
      from Publish_Some_present [OF this w] show False by simp
    qed
  next
    assume "handlers bus T = None"
    with free show "\<exists>w. Publish M srt prog T arg bus = Some (False, w)"
      by (simp add: Publish_absent)
  qed
  have b: "handlers bus T = None \<longrightarrow> Publish M srt prog T arg bus = Some (False, arg, bus)"
    using free by (simp add: Publish_absent)
  have c: "\<forall>h. handlers bus T = Some h \<and> callbacks h = [] \<longrightarrow>
      Publish M srt prog T arg bus = Some (True, arg, bus)"
    using free by (auto simp: Publish_present)
  have d: "handlers bus T \<noteq> None \<and>
      (M = null_mutex \<or> subscribes_only prog (entries_of bus T)) \<longrightarrow>
      (\<exists>w. Publish M srt prog T arg bus = Some (True, w))"
  proof
    assume asm: "handlers bus T \<noteq> None \<and>
      (M = null_mutex \<or> subscribes_only prog (entries_of bus T))"
    then obtain h where h: "handlers bus T = Some h" by blast
    have "\<exists>w. for_each_invoke M srt prog (callbacks h) (arg, bus) = Some w"
    proof (cases "M = null_mutex")
      case True
      then show ?thesis
        using for_each_invoke_null_total [of srt prog "callbacks h" "(arg, bus)"] by auto
    next
      case False
      with asm h have "subscribes_only prog (callbacks h)" by (simp add: entries_of_def)
      with assms show ?thesis
        using for_each_invoke_subscribes [of "(arg, bus)" prog "callbacks h" M srt] by auto
    qed
    then show "\<exists>w. Publish M srt prog T arg bus = Some (True, w)"
      using free h by (auto simp: Publish_present)
  qed
  from a b c d show ?thesis by blast
qed

text \<open>
  The statement at a bus whose list for type 7 was emptied and which never had a list
  for type 8, under both mutex policies.
\<close>

theorem Publish_returns_false_iff_no_list_witness:
  "quiescent (bus_of []) \<and>
   handlers (bus_of []) (typeid 8) = None \<and>
   Publish std_mutex insertion_sort (logging no_bus_calls) (typeid 8) [] (bus_of []) =
     Some (False, [], bus_of []) \<and>
   handlers (bus_of []) (typeid 7) = Some \<lparr>callbacks = [], mutex = False\<rparr> \<and>
   Publish std_mutex insertion_sort (logging no_bus_calls) (typeid 7) [] (bus_of []) =
     Some (True, [], bus_of []) \<and>
   Publish null_mutex insertion_sort (logging no_bus_calls) (typeid 7) [] (bus_of []) =
     Some (True, [], bus_of [])"
proof -
  have n: "handlers (bus_of []) (typeid 8) = None" by (simp add: bus_of_def)
  note q = bus_of_quiescent [of "[]"]
  note h = bus_of_handlers [of "[]"]
  from Publish_returns_false_iff_no_list [OF q, of std_mutex insertion_sort
      "logging no_bus_calls" "typeid 8" "[]"]
    Publish_returns_false_iff_no_list [OF q, of std_mutex insertion_sort
      "logging no_bus_calls" "typeid 7" "[]"]
    Publish_returns_false_iff_no_list [OF q, of null_mutex insertion_sort
      "logging no_bus_calls" "typeid 7" "[]"]
    n q h
  show ?thesis by simp
qed

subsection \<open>Unsubscribe\<close>

text \<open>
  C3 describes what \<open>Unsubscribe\<close> is written to do, and the code does it under
  \<open>std::null_mutex\<close> (\<open>Unsubscribe_absent\<close>, \<open>Unsubscribe_null\<close> and
  \<open>Unsubscribe_removes_one_of_two\<close>). Under \<open>std::mutex\<close>, the default policy of
  \<open>EventBus\<close>, it does not: \<open>delete_callback\<close> locks the list's mutex and then calls
  \<open>find_callback_it\<close>, which locks the same mutex again, so whenever a handler list
  exists for the event type the call never returns.
\<close>

theorem Unsubscribe_std_mutex_never_returns:
  "handlers bus T = Some h \<Longrightarrow> Unsubscribe std_mutex T c bus = None"
  by (simp add: Unsubscribe_def delete_callback_std)

text \<open>One \<open>Subscribe\<close> on a fresh bus with the default policy, then the \<open>Unsubscribe\<close>.\<close>

theorem Unsubscribe_std_mutex_never_returns_witness:
  "Subscribe std_mutex insertion_sort (typeid 7) (make_func 1) Default EventBus_init =
     Some (bus_of [(make_func 1, Default)]) \<and>
   handlers (bus_of [(make_func 1, Default)]) (typeid 7) =
     Some \<lparr>callbacks = [(make_func 1, Default)], mutex = False\<rparr> \<and>
   Unsubscribe std_mutex (typeid 7) (make_func 1) (bus_of [(make_func 1, Default)]) = None"
proof -
  have s: "Subscribe std_mutex insertion_sort (typeid 7) (make_func 1) Default EventBus_init =
     Some (bus_of [(make_func 1, Default)])"
    by (simp add: EventBus_init_def Subscribe_def add_callback_def make_unique_def
        insertion_sort_def bus_of_def)
  note h = bus_of_handlers [of "[(make_func 1, Default)]"]
  from s h Unsubscribe_std_mutex_never_returns [OF h, of "make_func 1"] show ?thesis by simp
qed

text \<open>
  Under \<open>std::null_mutex\<close>: the same callback subscribed twice, one \<open>Unsubscribe\<close>, which
  returns \<open>true\<close> and leaves one entry, and a \<open>Publish\<close>, which invokes it once.
\<close>

lemma Unsubscribe_removes_one_of_two:
  "Option.bind (subscribe_all null_mutex insertion_sort (typeid 7)
      [(make_func 1, Default), (make_func 1, Default)] EventBus_init)
     (\<lambda>bus. Option.bind (Unsubscribe null_mutex (typeid 7) (make_func 1) bus)
        (\<lambda>r. map_option (\<lambda>p. (fst r, entries_of (snd r) (typeid 7), fst (snd p)))
           (Publish null_mutex insertion_sort (logging no_bus_calls) (typeid 7) [] (snd r)))) =
   Some (True, [(make_func 1, Default)], [raw_call 1])"
  by code_simp

subsection \<open>The order of delivery\<close>

lemma targets_Nil: "targets [] = []"
  by (simp add: targets_def List.map_filter_simps)

lemma targets_Cons:
  "targets (e # es) = (case func (fst e) of None \<Rightarrow> targets es | Some t \<Rightarrow> t # targets es)"
  by (simp add: targets_def List.map_filter_simps split: option.splits)

lemma set_targets: "set (targets cs) = {t. \<exists>e \<in> set cs. func (fst e) = Some t}"
  by (induction cs) (auto simp: targets_Nil targets_Cons split: option.splits)

lemma invoke_logging:
  "invoke M srt (logging calls_of) c (log, bus) = Some (log', bus') \<Longrightarrow>
   log' = log @ (case func c of None \<Rightarrow> [] | Some t \<Rightarrow> [t])"
  by (cases "func c") (auto simp: invoke_def logging_def Option.bind_eq_Some_conv)

lemma for_each_invoke_logging:
  "for_each_invoke M srt (logging calls_of) cs (log, bus) = Some (log', bus') \<Longrightarrow>
   log' = log @ targets cs"
proof (induction cs arbitrary: log bus)
  case Nil
  then show ?case by (simp add: targets_Nil)
next
  case (Cons e es)
  from Cons.prems obtain log1 bus1 where
    i: "invoke M srt (logging calls_of) (fst e) (log, bus) = Some (log1, bus1)" and
    r: "for_each_invoke M srt (logging calls_of) es (log1, bus1) = Some (log', bus')"
    by (auto simp: Option.bind_eq_Some_conv)
  from i have "log1 = log @ (case func (fst e) of None \<Rightarrow> [] | Some t \<Rightarrow> [t])"
    by (rule invoke_logging)
  moreover from r have "log' = log1 @ targets es" by (rule Cons.IH)
  ultimately show ?case by (simp add: targets_Cons split: option.splits)
qed

lemma Publish_logging:
  assumes "\<not> bus_mutex bus" and "handlers bus T = Some h"
    and "Publish M srt (logging calls_of) T log bus = Some (r, log', bus')"
  shows "r = True \<and> log' = log @ targets (callbacks h)"
proof -
  from assms
  have "for_each_invoke M srt (logging calls_of) (callbacks h) (log, bus) = Some (log', bus')"
    and "r = True"
    by (auto simp: Publish_present)
  then show ?thesis using for_each_invoke_logging by blast
qed

lemma invoke_no_calls:
  "invoke M srt (logging no_bus_calls) c (log, bus) =
     Some (log @ (case func c of None \<Rightarrow> [] | Some t \<Rightarrow> [t]), bus)"
  by (cases "func c") (simp_all add: invoke_def logging_def no_bus_calls_def)

lemma for_each_invoke_no_calls:
  "for_each_invoke M srt (logging no_bus_calls) cs (log, bus) = Some (log @ targets cs, bus)"
proof (induction cs arbitrary: log)
  case Nil
  then show ?case by (simp add: targets_Nil)
next
  case (Cons e es)
  show ?case
    by (cases "func (fst e)") (simp_all add: invoke_no_calls targets_Cons Cons.IH)
qed


text \<open>
  With the stable \<open>insertion_sort\<close> for \<open>std::sort\<close>, the entries of each priority
  stay in the order of their subscription.
\<close>

lemma insertion_sort_snoc:
  "insertion_sort cmp (ys @ [x]) = insert_by cmp x (insertion_sort cmp ys)"
  by (simp add: insertion_sort_def)

lemma filter_insert_by:
  "sorted_wrt by_priority ys \<Longrightarrow>
   filter (\<lambda>e. snd e = p) (insert_by priority_greater x ys) =
     filter (\<lambda>e. snd e = p) ys @ (if snd x = p then [x] else [])"
proof (induction ys)
  case Nil
  then show ?case by simp
next
  case (Cons y ys)
  show ?case
  proof (cases "priority_greater x y")
    case True
    have "\<forall>z \<in> set (y # ys). snd z \<noteq> snd x"
    proof
      fix z assume "z \<in> set (y # ys)"
      with Cons.prems have "by_priority y z" by (auto simp: by_priority_def)
      with True show "snd z \<noteq> snd x" by (auto simp: by_priority_def priority_greater_def)
    qed
    then have "snd x = p \<Longrightarrow> filter (\<lambda>e. snd e = p) (y # ys) = []"
      by (auto simp: filter_empty_conv)
    with True show ?thesis by auto
  next
    case False
    with Cons show ?thesis by simp
  qed
qed

lemma insertion_sort_sorted: "sorted_wrt by_priority (insertion_sort priority_greater xs)"
  using insertion_sort_contract by (rule contract_sorted)

lemma filter_insertion_sort:
  "filter (\<lambda>e. snd e = p) (insertion_sort priority_greater xs) = filter (\<lambda>e. snd e = p) xs"
proof (induction xs rule: rev_induct)
  case Nil
  then show ?case by (simp add: insertion_sort_def)
next
  case (snoc x xs)
  then show ?case
    by (simp add: insertion_sort_snoc filter_insert_by insertion_sort_sorted)
qed

lemma stable_sort_keeps_subscription_order:
  "subscribe_all M insertion_sort T subs bus = Some bus' \<Longrightarrow>
   filter (\<lambda>e. snd e = p) (entries_of bus' T) =
     filter (\<lambda>e. snd e = p) (entries_of bus T) @ filter (\<lambda>e. snd e = p) subs"
proof (induction subs arbitrary: bus)
  case Nil
  then show ?case by simp
next
  case (Cons e es)
  from Cons.prems obtain bus1 where
    s: "Subscribe M insertion_sort T (fst e) (snd e) bus = Some bus1" and
    r: "subscribe_all M insertion_sort T es bus1 = Some bus'"
    by (auto simp: Option.bind_eq_Some_conv)
  have "entries_of bus1 T = insertion_sort priority_greater (entries_of bus T @ [e])"
    using Subscribe_Some(1) [OF s, of T] by simp
  then have "filter (\<lambda>e. snd e = p) (entries_of bus1 T) =
      filter (\<lambda>e. snd e = p) (entries_of bus T) @ filter (\<lambda>e. snd e = p) [e]"
    by (simp add: filter_insertion_sort)
  with Cons.IH [OF r] show ?case by simp
qed











































subsection \<open>Delivery to a snapshot\<close>

lemma late_subscriber_first:
  "Publish null_mutex insertion_sort (logging late_subscriber) (typeid 7) []
      (bus_of [(make_func 1, High), (make_func 2, Default)]) =
   Some (True, [raw_call 1, raw_call 2],
      bus_of [(make_func 3, VeryHigh), (make_func 1, High), (make_func 2, Default)])"
  by (simp add: eval_defs late_subscriber_def)

lemma late_subscriber_second:
  "Publish null_mutex insertion_sort (logging late_subscriber) (typeid 7) []
      (bus_of [(make_func 3, VeryHigh), (make_func 1, High), (make_func 2, Default)]) =
   Some (True, [raw_call 3, raw_call 1, raw_call 2],
      bus_of [(make_func 3, VeryHigh), (make_func 3, VeryHigh), (make_func 1, High),
              (make_func 2, Default)])"
  by (simp add: eval_defs late_subscriber_def)

lemma unsubscriber_first:
  "Publish null_mutex insertion_sort (logging unsubscriber) (typeid 7) []
      (bus_of [(make_func 1, High), (make_func 2, Default)]) =
   Some (True, [raw_call 1, raw_call 2], bus_of [(make_func 1, High)])"
  by (simp add: eval_defs unsubscriber_def)

text \<open>
  C4. Let every callback append its call target to the event, and let the callbacks
  call \<open>Subscribe\<close> and \<open>Unsubscribe\<close> as they like. A \<open>Publish\<close> that returns has invoked
  exactly the entries that the handler list held when it was called, once each and in
  list order: an entry subscribed during the delivery is not among them, an entry
  unsubscribed during the delivery still is. A later \<open>Publish\<close> delivers to the list as
  the first one left it, and it returns under \<open>std::null_mutex\<close>. When the callbacks of
  the snapshot call nothing but \<open>Subscribe\<close>, every callback they subscribe to the event
  type is in the list afterwards, so the later \<open>Publish\<close> invokes it.
\<close>

theorem Publish_delivers_to_snapshot:
  assumes "quiescent bus" and "handlers bus T = Some h"
    and "Publish M srt (logging calls_of) T log bus = Some (r, log', bus')"
  shows "r = True \<and> log' = log @ targets (callbacks h) \<and>
         (\<forall>log2 r2 log2' bus2.
            Publish M srt (logging calls_of) T log2 bus' = Some (r2, log2', bus2) \<longrightarrow>
            log2' = log2 @ targets (entries_of bus' T)) \<and>
         (M = null_mutex \<longrightarrow> Publish M srt (logging calls_of) T log2 bus' \<noteq> None) \<and>
         (std_sort_contract srt priority_greater \<and>
          subscribes_only (logging calls_of) (callbacks h) \<and>
          call_Subscribe T c' p' \<in> subscribed_in (logging calls_of) (callbacks h) \<and>
          func c' = Some t' \<longrightarrow>
            (c', p') \<in> set (entries_of bus' T) \<and> t' \<in> set (targets (entries_of bus' T)))"
proof -
  have free: "\<not> bus_mutex bus" using assms(1) by (simp add: quiescent_def)
  have a: "r = True \<and> log' = log @ targets (callbacks h)"
    using free assms(2,3) by (rule Publish_logging)
  have run: "for_each_invoke M srt (logging calls_of) (callbacks h) (log, bus) = Some (log', bus')"
    using free assms(2,3) by (auto simp: Publish_present)
  have q': "quiescent bus'" using assms(1,3) by (rule quiescent_Publish)
  then have free': "\<not> bus_mutex bus'" by (simp add: quiescent_def)
  have "dom (handlers bus) \<subseteq> dom (handlers bus')"
    using Publish_dom [OF assms(3)] by simp
  with assms(2) obtain h' where h': "handlers bus' T = Some h'" by blast
  have b: "\<forall>log2 r2 log2' bus2.
      Publish M srt (logging calls_of) T log2 bus' = Some (r2, log2', bus2) \<longrightarrow>
      log2' = log2 @ targets (entries_of bus' T)"
    using Publish_logging [OF free' h'] h' by (simp add: entries_of_def)
  have c: "M = null_mutex \<longrightarrow> Publish M srt (logging calls_of) T log2 bus' \<noteq> None"
    using Publish_null_total [of srt "logging calls_of" T log2 bus'] by auto
  have d: "std_sort_contract srt priority_greater \<and>
      subscribes_only (logging calls_of) (callbacks h) \<and>
      call_Subscribe T c' p' \<in> subscribed_in (logging calls_of) (callbacks h) \<and>
      func c' = Some t' \<longrightarrow>
      (c', p') \<in> set (entries_of bus' T) \<and> t' \<in> set (targets (entries_of bus' T))"
  proof
    assume asm: "std_sort_contract srt priority_greater \<and>
      subscribes_only (logging calls_of) (callbacks h) \<and>
      call_Subscribe T c' p' \<in> subscribed_in (logging calls_of) (callbacks h) \<and>
      func c' = Some t'"
    then have ct: "std_sort_contract srt priority_greater"
      and so: "subscribes_only (logging calls_of) (callbacks h)"
      and cs: "call_Subscribe T c' p' \<in> subscribed_in (logging calls_of) (callbacks h)"
      and f: "func c' = Some t'" by simp_all
    from for_each_invoke_grows [OF ct so run, of T] cs
    have m: "(c', p') \<in> set (entries_of bus' T)" by simp
    with f have "t' \<in> set (targets (entries_of bus' T))"
      by (force simp: set_targets)
    with m show "(c', p') \<in> set (entries_of bus' T) \<and> t' \<in> set (targets (entries_of bus' T))"
      by simp
  qed
  from a b c d show ?thesis by blast
qed

text \<open>
  The statement at two deliveries to the callbacks 1 (High) and 2 (Default). When 1
  subscribes 3 at VeryHigh, the first \<open>Publish\<close> invokes 1 and 2 only, and the second
  invokes 3, 1, 2. When 1 unsubscribes 2, the \<open>Publish\<close> still invokes 2, and 2 is gone
  from the list afterwards.
\<close>

theorem Publish_delivers_to_snapshot_witness:
  "quiescent (bus_of [(make_func 1, High), (make_func 2, Default)]) \<and>
   std_sort_contract insertion_sort priority_greater \<and>
   subscribes_only (logging late_subscriber) [(make_func 1, High), (make_func 2, Default)] \<and>
   call_Subscribe (typeid 7) (make_func 3) VeryHigh \<in>
     subscribed_in (logging late_subscriber) [(make_func 1, High), (make_func 2, Default)] \<and>
   Publish null_mutex insertion_sort (logging late_subscriber) (typeid 7) []
      (bus_of [(make_func 1, High), (make_func 2, Default)]) =
     Some (True, [raw_call 1, raw_call 2],
       bus_of [(make_func 3, VeryHigh), (make_func 1, High), (make_func 2, Default)]) \<and>
   raw_call 3 \<in> set (targets (entries_of
       (bus_of [(make_func 3, VeryHigh), (make_func 1, High), (make_func 2, Default)])
       (typeid 7))) \<and>
   Publish null_mutex insertion_sort (logging late_subscriber) (typeid 7) []
      (bus_of [(make_func 3, VeryHigh), (make_func 1, High), (make_func 2, Default)]) =
     Some (True, [raw_call 3, raw_call 1, raw_call 2],
       bus_of [(make_func 3, VeryHigh), (make_func 3, VeryHigh), (make_func 1, High),
               (make_func 2, Default)]) \<and>
   Publish null_mutex insertion_sort (logging unsubscriber) (typeid 7) []
      (bus_of [(make_func 1, High), (make_func 2, Default)]) =
     Some (True, [] @ targets [(make_func 1, High), (make_func 2, Default)],
       bus_of [(make_func 1, High)]) \<and>
   targets [(make_func 1, High), (make_func 2, Default)] = [raw_call 1, raw_call 2]"
proof -
  let ?cs = "[(make_func 1, High), (make_func 2, Default)]"
  let ?cs' = "[(make_func 3, VeryHigh), (make_func 1, High), (make_func 2, Default)]"
  note q = bus_of_quiescent [of ?cs]
  note h = bus_of_handlers [of ?cs]
  have so: "subscribes_only (logging late_subscriber) ?cs"
    by (simp add: subscribes_only_def logging_def late_subscriber_def cb_defs)
  have si: "call_Subscribe (typeid 7) (make_func 3) VeryHigh \<in>
      subscribed_in (logging late_subscriber) ?cs"
    by (simp add: subscribed_in_def logging_def late_subscriber_def cb_defs)
  have f: "func (make_func 3) = Some (raw_call 3)" by (simp add: cb_defs)
  have t: "targets ?cs = [raw_call 1, raw_call 2]"
    by (simp add: targets_Cons targets_Nil cb_defs)
  from Publish_delivers_to_snapshot [OF q h late_subscriber_first,
      of "[]" "make_func 3" VeryHigh "raw_call 3"]
    insertion_sort_contract so si f
  have one: "raw_call 3 \<in> set (targets (entries_of (bus_of ?cs') (typeid 7)))"
    by simp
  from Publish_delivers_to_snapshot [OF q h unsubscriber_first]
  have two: "[raw_call 1, raw_call 2] = [] @ targets ?cs"
    by simp
  from one two q insertion_sort_contract so si late_subscriber_first late_subscriber_second
    unsubscriber_first t
  show ?thesis by simp
qed

subsection \<open>The example program\<close>

text \<open>
  C5. With any \<open>std::sort\<close> that meets its contract, \<open>main\<close> ends with a damage of 151:
  \<open>base_attack\<close>, subscribed at High, runs before \<open>Player::attack\<close>, subscribed at
  Default; it finds a damage of 0, which the test \<open><= 0\<close> accepts, and sets it to 1;
  \<open>Player::attack\<close> then adds 150 to the same event. In the other order the result
  would be 150.
\<close>

theorem example_damage_is_151:
  assumes "std_sort_contract srt priority_greater" and "base_attack_ptr \<noteq> nullptr"
  shows "main srt base_attack_ptr attack_ptr player AttackEvent_id Player_id = Some 151 \<and>
         base_attack \<lparr>damage = 0\<rparr> = \<lparr>damage = 1\<rparr> \<and>
         Player_attack (base_attack \<lparr>damage = 0\<rparr>) = \<lparr>damage = 151\<rparr> \<and>
         base_attack (Player_attack \<lparr>damage = 0\<rparr>) = \<lparr>damage = 150\<rparr>"
proof -
  let ?T = "typeid AttackEvent_id"
  let ?b = "make_func base_attack_ptr"
  let ?p = "make_func_method attack_ptr player Player_id"
  let ?bus1 = "\<lparr>handlers = (handlers EventBus_init)(?T \<mapsto>
      \<lparr>callbacks = [(?b, High)], mutex = False\<rparr>), bus_mutex = False\<rparr>"
  let ?bus2 = "\<lparr>handlers = (handlers ?bus1)(?T \<mapsto>
      \<lparr>callbacks = [(?b, High), (?p, Default)], mutex = False\<rparr>), bus_mutex = False\<rparr>"
  have s1: "Subscribe null_mutex srt ?T ?b High EventBus_init = Some ?bus1"
    using quiescent_init
    by (simp add: Subscribe_quiescent entries_of_def EventBus_init_def
        contract_single [OF assms(1)])
  have q1: "quiescent ?bus1" using quiescent_init s1 by (rule quiescent_Subscribe)
  have gt: "priority_greater (?b, High) (?p, Default)" by (simp add: priority_greater_def)
  have s2: "Subscribe null_mutex srt ?T ?p Default ?bus1 = Some ?bus2"
    using q1 by (simp add: Subscribe_quiescent entries_of_def contract_pair [OF assms(1) gt])
  have p: "Publish null_mutex srt example_prog ?T \<lparr>damage = 0\<rparr> ?bus2 =
      Some (True, \<lparr>damage = 151\<rparr>, ?bus2)"
    using assms(2)
    by (simp add: Publish_def get_callbacks_def invoke_def cb_defs base_attack_def
        Player_attack_def)
  have "main srt base_attack_ptr attack_ptr player AttackEvent_id Player_id = Some 151"
    unfolding main_def Let_def using s1 s2 p by simp
  then show ?thesis by (simp add: base_attack_def Player_attack_def)
qed

theorem example_damage_is_151_witness:
  "std_sort_contract insertion_sort priority_greater \<and> (4096 :: nat) \<noteq> nullptr \<and>
   main insertion_sort 4096 (member_pointer 4112 [0]) 8192 1 2 = Some 151"
  using example_damage_is_151 [OF insertion_sort_contract, of 4096 "member_pointer 4112 [0]" 8192 1 2]
    insertion_sort_contract by simp

subsection \<open>invoke_all\<close>

lemma invoke_all_void:
  "\<not> mutex h \<Longrightarrow>
   invoke_all M srt prog h w =
     map_option (\<lambda>w'. (w', h)) (for_each_invoke M srt prog (callbacks h) w)"
  by (cases "for_each_invoke M srt prog (callbacks h) w")
    (simp_all add: invoke_all_def lock_free unlock_after_lock)

text \<open>For \<open>U = void\<close>, \<open>invoke_all\<close> invokes every callback of the list, in list order.\<close>

lemma invoke_all_void_in_list_order:
  "\<not> mutex h \<Longrightarrow>
   invoke_all M srt (logging no_bus_calls) h (log, bus) =
     Some ((log @ targets (callbacks h), bus), h)"
  by (simp add: invoke_all_void for_each_invoke_no_calls)

text \<open>
  C8 says what the branch of \<open>invoke_all\<close> for a non-void \<open>U\<close> is written to do: keep the
  value of the last callback. The code cannot do it, because \<open>ComparableCallback::invoke\<close>
  has return type \<open>void\<close> and drops what the wrapped function returns: a callback that
  returns 7 and one that returns 9 are indistinguishable through \<open>invoke\<close>, and the
  assignment \<open>u = callback.first.invoke(arg)\<close> has no value to assign.
\<close>

theorem invoke_drops_the_result:
  "invoke M srt (\<lambda>t. \<lparr>effect = (\<lambda>e. (e, 7 :: int)), bus_calls = []\<rparr>) (make_func 4096) (ev, bus) =
     Some (ev, bus) \<and>
   invoke M srt (\<lambda>t. \<lparr>effect = (\<lambda>e. (e, 9 :: int)), bus_calls = []\<rparr>) (make_func 4096) (ev, bus) =
     Some (ev, bus)"
  by (simp add: invoke_def cb_defs)

subsection \<open>The registry\<close>







end
